theory Spec2Isabelle
  imports Main "HOL-Library.Word" "HOL-Library.Multiset"
begin

section \<open>The texture atlas builder of \<^verbatim>\<open>res/extract_textures.py\<close>\<close>

text \<open>
  The script builds one atlas image from a table of texture names and slot indices.
  Python integers are \<open>int\<close> (\<open>div\<close> and \<open>mod\<close> on \<open>int\<close> round towards minus
  infinity, as \<^verbatim>\<open>//\<close> and \<^verbatim>\<open>%\<close> do). The dictionary \<^verbatim>\<open>TEXTURE_MAP\<close> is an
  association list in insertion order, the order in which \<^verbatim>\<open>items()\<close> yields it.
  Exceptions are values of type \<open>error\<close>; console output and file system accesses are
  recorded, in the order they happen, in a trace of events.
\<close>

subsection \<open>Images\<close>

text \<open>
  An image in mode \<^verbatim>\<open>RGBA\<close>: its width, its height and the four 8-bit channels
  (red, green, blue, alpha) of each pixel. The script reads and writes pixels only
  through the library, which stays inside \<open>0 \<le> x < width\<close>, \<open>0 \<le> y < height\<close>.
\<close>

type_synonym pixel = "8 word \<times> 8 word \<times> 8 word \<times> 8 word"

record image =
  width :: int
  height :: int
  pix :: "int \<times> int \<Rightarrow> pixel"

datatype error = ValueError | ZeroDivisionError | OSError

text \<open>
  A path of the file system holds a picture that \<^verbatim>\<open>Image.open(path).convert('RGBA')\<close>
  yields in four-channel form, or something that cannot be decoded (a directory, a
  corrupt file).
\<close>

datatype file_content = Png image | Undecodable

datatype event = Print string | Exists string | Open string | Save string

text \<open>
  What the platform provides and the script does not change: the resampling filter
  \<^verbatim>\<open>Image.LANCZOS\<close> (floating-point arithmetic inside the library: given the source
  picture and the requested size it yields the pixels of the result), the platform's
  \<^verbatim>\<open>os.path.join\<close>, which paths can be written, and which paths name the same
  file on disk (a relative and an absolute spelling, a path through \<^verbatim>\<open>.\<close>, a link).
\<close>

record env =
  LANCZOS :: "image \<Rightarrow> int \<times> int \<Rightarrow> int \<times> int \<Rightarrow> pixel"
  os_path_join :: "string \<Rightarrow> string \<Rightarrow> string"
  writable :: "string \<Rightarrow> bool"
  same_file :: "string \<Rightarrow> string \<Rightarrow> bool"

text \<open>The state of a run: the canvas, the events so far, and the file system.\<close>

record state =
  atlas :: image
  trace :: "event list"
  files :: "string \<rightharpoonup> file_content"

text \<open>\<^verbatim>\<open>Image.new('RGBA', size, color)\<close>: a negative dimension raises \<^verbatim>\<open>ValueError\<close>.\<close>

definition Image_new :: "int \<times> int \<Rightarrow> pixel \<Rightarrow> error + image" where
  "Image_new sz color =
     (if fst sz < 0 \<or> snd sz < 0 then Inl ValueError
      else Inr \<lparr>width = fst sz, height = snd sz, pix = (\<lambda>_. color)\<rparr>)"

text \<open>\<^verbatim>\<open>Image.open(path).convert('RGBA')\<close>.\<close>

definition Image_open :: "(string \<rightharpoonup> file_content) \<Rightarrow> string \<Rightarrow> error + image" where
  "Image_open fs path =
     (case fs path of
        Some (Png im) \<Rightarrow> Inr im
      | Some Undecodable \<Rightarrow> Inl OSError
      | None \<Rightarrow> Inl OSError)"

text \<open>
  \<^verbatim>\<open>im.resize(size, Image.LANCZOS)\<close>: a picture that already has the requested size
  is returned as a copy; otherwise a dimension below 1 raises \<^verbatim>\<open>ValueError\<close>, and
  the result has the requested size and the pixels the filter computes.
\<close>

definition resize :: "env \<Rightarrow> image \<Rightarrow> int \<times> int \<Rightarrow> error + image" where
  "resize e im sz =
     (if (width im, height im) = sz then Inr im
      else if fst sz < 1 \<or> snd sz < 1 then Inl ValueError
      else Inr \<lparr>width = fst sz, height = snd sz, pix = LANCZOS e im sz\<rparr>)"

text \<open>
  \<^verbatim>\<open>im.paste(src, (x0, y0))\<close> with no mask: the two-element box is completed with the
  size of the pasted picture, the box is clipped to the canvas, and inside it every
  channel of the canvas, alpha included, is replaced by the pasted picture's.
\<close>

definition paste_box :: "image \<Rightarrow> int \<times> int \<Rightarrow> int \<times> int \<times> int \<times> int" where
  "paste_box src box = (fst box, snd box, fst box + width src, snd box + height src)"

definition in_box :: "int \<times> int \<times> int \<times> int \<Rightarrow> int \<times> int \<Rightarrow> bool" where
  "in_box b p = (case b of (x0, y0, x1, y1) \<Rightarrow>
     x0 \<le> fst p \<and> fst p < x1 \<and> y0 \<le> snd p \<and> snd p < y1)"

definition paste :: "image \<Rightarrow> image \<Rightarrow> int \<times> int \<Rightarrow> image" where
  "paste im src box =
     im\<lparr>pix := (\<lambda>p. if in_box (0, 0, width im, height im) p \<and> in_box (paste_box src box) p
                    then pix src (fst p - fst box, snd p - snd box)
                    else pix im p)\<rparr>"

subsection \<open>Decimal numerals of \<^verbatim>\<open>str(int)\<close>\<close>

definition digit_char :: "nat \<Rightarrow> char" where
  "digit_char d = char_of (48 + d)"

fun str_nat :: "nat \<Rightarrow> string" where
  "str_nat n = (if n < 10 then [digit_char n] else str_nat (n div 10) @ [digit_char (n mod 10)])"

declare str_nat.simps [simp del]

definition str_int :: "int \<Rightarrow> string" where
  "str_int i = (if i < 0 then CHR ''-'' # str_nat (nat (- i)) else str_nat (nat i))"

subsection \<open>Configuration\<close>

definition TILES_DIR :: string where
  "TILES_DIR = ''C:'' @ [CHR 0x5C] @ ''Users'' @ [CHR 0x5C] @ ''natha'' @ [CHR 0x5C] @ ''dev''
     @ [CHR 0x5C] @ ''CPP'' @ [CHR 0x5C] @ ''GPUProgramming'' @ [CHR 0x5C] @ ''Renderer''
     @ [CHR 0x5C] @ ''res'' @ [CHR 0x5C] @ ''kenney_voxel-pack'' @ [CHR 0x5C] @ ''PNG''
     @ [CHR 0x5C] @ ''Tiles''"

definition TEXTURE_SIZE :: int where
  "TEXTURE_SIZE = 16"

definition ATLAS_SIZE :: int where
  "ATLAS_SIZE = 256"

definition TEXTURE_MAP :: "(string \<times> int) list" where
  "TEXTURE_MAP =
     [(''air'', 0), (''greystone'', 1), (''dirt'', 2), (''grass_top'', 3), (''dirt_grass'', 4),
      (''sand'', 5), (''water'', 6), (''trunk_top'', 7), (''trunk_side'', 8), (''leaves'', 9),
      (''glass'', 10), (''stone'', 11), (''wood'', 12), (''rock'', 13), (''gravel_stone'', 14),
      (''brick_red'', 15), (''snow'', 16), (''ice'', 17)]"

definition OUTPUT :: string where
  "OUTPUT = ''kenney_voxel_atlas.png''"

subsection \<open>The run\<close>

text \<open>
  \<^verbatim>\<open>row, col = index // textures_per_row, index % textures_per_row\<close>: division by
  zero raises.
\<close>

definition row_col :: "int \<Rightarrow> int \<Rightarrow> error + int \<times> int" where
  "row_col index textures_per_row =
     (if textures_per_row = 0 then Inl ZeroDivisionError
      else Inr (index div textures_per_row, index mod textures_per_row))"

definition tile_path :: "env \<Rightarrow> string \<Rightarrow> string \<Rightarrow> string" where
  "tile_path e tiles_dir name = os_path_join e tiles_dir (name @ ''.png'')"

text \<open>The body of the loop, for one entry \<open>(name, index)\<close> of the table.\<close>

definition process_entry ::
  "env \<Rightarrow> string \<Rightarrow> int \<Rightarrow> int \<Rightarrow> state \<Rightarrow> string \<times> int \<Rightarrow> error + state" where
  "process_entry e tiles_dir texture_size textures_per_row st entry =
     (case entry of (name, index) \<Rightarrow>
        if name = ''air'' then Inr st
        else
          let path = tile_path e tiles_dir name in
          if files st path = None
          then Inr (st\<lparr>trace := trace st @ [Exists path, Print (''Missing: '' @ name)]\<rparr>)
          else
            case Image_open (files st) path of
              Inl err \<Rightarrow> Inl err
            | Inr im \<Rightarrow>
               (case resize e im (texture_size, texture_size) of
                  Inl err \<Rightarrow> Inl err
                | Inr texture \<Rightarrow>
                   (case row_col index textures_per_row of
                      Inl err \<Rightarrow> Inl err
                    | Inr (row, col) \<Rightarrow>
                        Inr (st\<lparr>atlas := paste (atlas st) texture
                                            (col * texture_size, row * texture_size),
                                 trace := trace st @
                                   [Exists path, Open path,
                                    Print (''Added '' @ name @ '' at index '' @ str_int index)]\<rparr>))))"

fun loop ::
  "env \<Rightarrow> string \<Rightarrow> int \<Rightarrow> int \<Rightarrow> (string \<times> int) list \<Rightarrow> state \<Rightarrow> error + state" where
  "loop e tiles_dir texture_size textures_per_row [] st = Inr st"
| "loop e tiles_dir texture_size textures_per_row (entry # entries) st =
     (case process_entry e tiles_dir texture_size textures_per_row st entry of
        Inl err \<Rightarrow> Inl err
      | Inr st' \<Rightarrow> loop e tiles_dir texture_size textures_per_row entries st')"

text \<open>
  Writing a picture to a path: afterwards the path, and every path that names the same
  file, holds the picture; all other paths keep what they held.
\<close>

definition write_file ::
  "env \<Rightarrow> (string \<rightharpoonup> file_content) \<Rightarrow> string \<Rightarrow> image \<Rightarrow> (string \<rightharpoonup> file_content)" where
  "write_file e fs name im =
     (\<lambda>path. if path = name \<or> same_file e path name then Some (Png im) else fs path)"

text \<open>
  \<^verbatim>\<open>atlas.save(name)\<close>: the file is opened for writing first, which raises
  \<^verbatim>\<open>OSError\<close> when the path cannot be written; the encoder then refuses a picture
  with no pixels.
\<close>

definition save :: "env \<Rightarrow> state \<Rightarrow> string \<Rightarrow> error + state" where
  "save e st name =
     (if \<not> writable e name then Inl OSError
      else if width (atlas st) = 0 \<or> height (atlas st) = 0 then Inl ValueError
      else Inr (st\<lparr>trace := trace st @ [Save name],
                  files := write_file e (files st) name (atlas st)\<rparr>))"

text \<open>The closing message.\<close>

definition summary :: "int \<Rightarrow> string" where
  "summary atlas_size =
     [CHR 0x0A] @ ''Atlas saved: kenney_voxel_atlas.png ('' @ str_int atlas_size @ ''x''
       @ str_int atlas_size @ '')''"

text \<open>
  The \<^verbatim>\<open>__main__\<close> block, with the four configuration constants as parameters and the
  file system the run starts from.
\<close>

definition build ::
  "env \<Rightarrow> string \<Rightarrow> int \<Rightarrow> int \<Rightarrow> (string \<times> int) list \<Rightarrow> (string \<rightharpoonup> file_content) \<Rightarrow> error + state" where
  "build e tiles_dir texture_size atlas_size texture_map fs =
     (case Image_new (atlas_size, atlas_size) (0, 0, 0, 0) of
        Inl err \<Rightarrow> Inl err
      | Inr canvas \<Rightarrow>
          if texture_size = 0 then Inl ZeroDivisionError
          else
            let textures_per_row = atlas_size div texture_size in
            case loop e tiles_dir texture_size textures_per_row texture_map
                   \<lparr>atlas = canvas, trace = [], files = fs\<rparr> of
              Inl err \<Rightarrow> Inl err
            | Inr st \<Rightarrow>
               (case save e st OUTPUT of
                  Inl err \<Rightarrow> Inl err
                | Inr st' \<Rightarrow> Inr (st'\<lparr>trace := trace st' @ [Print (summary atlas_size)]\<rparr>)))"

definition main :: "env \<Rightarrow> (string \<rightharpoonup> file_content) \<Rightarrow> error + state" where
  "main e fs = build e TILES_DIR TEXTURE_SIZE ATLAS_SIZE TEXTURE_MAP fs"

subsection \<open>Notions used to state the properties\<close>

text \<open>
  The cell of a slot index: the square of side \<open>texture_size\<close> whose corner is the
  offset the loop body passes to \<^verbatim>\<open>paste\<close>.
\<close>

definition in_cell :: "int \<Rightarrow> int \<Rightarrow> int \<Rightarrow> int \<times> int \<Rightarrow> bool" where
  "in_cell texture_size textures_per_row index p =
     in_box ((index mod textures_per_row) * texture_size,
             (index div textures_per_row) * texture_size,
             (index mod textures_per_row) * texture_size + texture_size,
             (index div textures_per_row) * texture_size + texture_size) p"

text \<open>
  An entry is placed when it is not the sentinel and its file exists; it is the condition
  under which the loop body reaches \<^verbatim>\<open>Image.open\<close>.
\<close>

definition placed :: "env \<Rightarrow> string \<Rightarrow> (string \<rightharpoonup> file_content) \<Rightarrow> string \<times> int \<Rightarrow> bool" where
  "placed e tiles_dir fs entry =
     (fst entry \<noteq> ''air'' \<and> fs (tile_path e tiles_dir (fst entry)) \<noteq> None)"

text \<open>Whether the loop body returns for an entry, which depends on the file system only.\<close>

definition succeeds :: "env \<Rightarrow> string \<Rightarrow> int \<Rightarrow> int \<Rightarrow> (string \<rightharpoonup> file_content) \<Rightarrow> string \<times> int \<Rightarrow> bool" where
  "succeeds e d ts tpr fs entry =
     (case process_entry e d ts tpr \<lparr>atlas = \<lparr>width = 0, height = 0, pix = (\<lambda>_. (0, 0, 0, 0))\<rparr>,
                                     trace = [], files = fs\<rparr> entry of
        Inl _ \<Rightarrow> False | Inr _ \<Rightarrow> True)"

text \<open>The events the loop body appends to the trace for an entry, when it returns.\<close>

definition entry_events :: "env \<Rightarrow> string \<Rightarrow> (string \<rightharpoonup> file_content) \<Rightarrow> string \<times> int \<Rightarrow> event list" where
  "entry_events e tiles_dir fs entry =
     (if fst entry = ''air'' then []
      else if fs (tile_path e tiles_dir (fst entry)) = None
      then [Exists (tile_path e tiles_dir (fst entry)), Print (''Missing: '' @ fst entry)]
      else [Exists (tile_path e tiles_dir (fst entry)), Open (tile_path e tiles_dir (fst entry)),
            Print (''Added '' @ fst entry @ '' at index '' @ str_int (snd entry))])"

text \<open>The table invariant: slot indices are pairwise distinct and lie in the grid.\<close>

definition table_invariant :: "int \<Rightarrow> int \<Rightarrow> (string \<times> int) list \<Rightarrow> bool" where
  "table_invariant atlas_size texture_size tbl =
     (distinct (map snd tbl) \<and>
      list_all (\<lambda>entry. 0 \<le> snd entry \<and>
                  snd entry < (atlas_size div texture_size) * (atlas_size div texture_size)) tbl)"

text \<open>The picture a run has written to the output file, if it got that far.\<close>

definition output_image :: "error + state \<Rightarrow> image option" where
  "output_image r = (case r of Inl err \<Rightarrow> None | Inr st \<Rightarrow> Some (atlas st))"

text \<open>The fully transparent canvas of a given side.\<close>

definition blank :: "int \<Rightarrow> image" where
  "blank n = \<lparr>width = n, height = n, pix = (\<lambda>_. (0, 0, 0, 0))\<rparr>"

subsection \<open>A concrete platform and file system\<close>

text \<open>
  A platform for running the model on concrete inputs: paths are joined with a slash,
  every path can be written, a file has one path only, and the filter samples the
  nearest source pixel.
\<close>

definition sample_env :: env where
  "sample_env =
     \<lparr>LANCZOS = (\<lambda>im sz p. pix im (fst p * width im div fst sz, snd p * height im div snd sz)),
      os_path_join = (\<lambda>a b. a @ ''/'' @ b),
      writable = (\<lambda>_. True),
      same_file = (\<lambda>a b. a = b)\<rparr>"

definition dirt_png :: image where
  "dirt_png = \<lparr>width = 128, height = 128, pix = (\<lambda>p. (134, 96, 67, 255))\<rparr>"

definition sample_fs :: "string \<rightharpoonup> file_content" where
  "sample_fs = [''tiles/dirt.png'' \<mapsto> Png dirt_png]"

definition dirt_texture :: image where
  "dirt_texture = \<lparr>width = 16, height = 16, pix = LANCZOS sample_env dirt_png (16, 16)\<rparr>"

text \<open>The state the run on the table \<open>{dirt: 2}\<close> ends in.\<close>

definition sample_result :: state where
  "sample_result =
     \<lparr>atlas = paste (blank 256) dirt_texture (32, 0),
      trace = [Exists ''tiles/dirt.png'', Open ''tiles/dirt.png'',
               Print ''Added dirt at index 2'', Save OUTPUT, Print (summary 256)],
      files = sample_fs(OUTPUT \<mapsto> Png (paste (blank 256) dirt_texture (32, 0)))\<rparr>"

text \<open>A second file, already of the target size, and the file system holding both.\<close>

definition sand_png :: image where
  "sand_png = \<lparr>width = 16, height = 16, pix = (\<lambda>p. (219, 211, 160, 255))\<rparr>"

definition two_fs :: "string \<rightharpoonup> file_content" where
  "two_fs = sample_fs(''tiles/sand.png'' \<mapsto> Png sand_png)"

section \<open>Properties\<close>

subsection \<open>The library operations\<close>

lemma resize_size:
  "resize e im (w, h) = Inr t \<Longrightarrow> width t = w \<and> height t = h"
  by (auto simp: resize_def split: if_splits)

lemma paste_width [simp]: "width (paste im src box) = width im"
  by (simp add: paste_def)

lemma paste_height [simp]: "height (paste im src box) = height im"
  by (simp add: paste_def)

lemma pix_paste:
  "pix (paste im src box) p =
     (if in_box (0, 0, width im, height im) p \<and> in_box (paste_box src box) p
      then pix src (fst p - fst box, snd p - snd box) else pix im p)"
  by (simp add: paste_def)

lemma process_entry_air [simp]:
  "process_entry e d ts tpr st (''air'', i) = Inr st"
  by (simp add: process_entry_def)

lemma process_entry_missing:
  "name \<noteq> ''air'' \<Longrightarrow> files st (tile_path e d name) = None \<Longrightarrow>
   process_entry e d ts tpr st (name, i) =
     Inr (st\<lparr>trace := trace st @ [Exists (tile_path e d name), Print (''Missing: '' @ name)]\<rparr>)"
  by (simp add: process_entry_def)

lemma process_entry_not_placed:
  "\<not> placed e d (files st) entry \<Longrightarrow> process_entry e d ts tpr st entry = Inr st' \<Longrightarrow>
   atlas st' = atlas st \<and> files st' = files st"
  by (cases entry) (auto simp: placed_def process_entry_def split: if_splits)

lemma process_entry_placed:
  assumes "process_entry e d ts tpr st (name, i) = Inr st'"
    and "placed e d (files st) (name, i)"
  shows "\<exists>im texture. files st (tile_path e d name) = Some (Png im)
           \<and> resize e im (ts, ts) = Inr texture \<and> tpr \<noteq> 0
           \<and> width texture = ts \<and> height texture = ts
           \<and> st' = st\<lparr>atlas := paste (atlas st) texture ((i mod tpr) * ts, (i div tpr) * ts),
                       trace := trace st @ [Exists (tile_path e d name), Open (tile_path e d name),
                          Print (''Added '' @ name @ '' at index '' @ str_int i)]\<rparr>"
  using assms
  by (auto simp: placed_def process_entry_def Image_open_def row_col_def Let_def
      dest: resize_size
      split: if_splits option.splits file_content.splits sum.splits)

lemma process_entry_files:
  "process_entry e d ts tpr st entry = Inr st' \<Longrightarrow> files st' = files st"
  by (cases entry)
     (auto simp: process_entry_def Let_def split: if_splits sum.splits prod.splits)

lemma process_entry_dims:
  "process_entry e d ts tpr st entry = Inr st' \<Longrightarrow>
   width (atlas st') = width (atlas st) \<and> height (atlas st') = height (atlas st)"
  by (cases entry)
     (auto simp: process_entry_def Let_def split: if_splits sum.splits prod.splits)

lemma process_entry_outside:
  assumes "process_entry e d ts tpr st entry = Inr st'"
    and "placed e d (files st) entry \<longrightarrow> \<not> in_cell ts tpr (snd entry) p"
  shows "pix (atlas st') p = pix (atlas st) p"
proof (cases "placed e d (files st) entry")
  case False
  with assms(1) show ?thesis by (simp add: process_entry_not_placed)
next
  case True
  obtain name i where entry: "entry = (name, i)" by (cases entry)
  from process_entry_placed [OF assms(1) [unfolded entry] True [unfolded entry]]
  obtain texture where tex: "width texture = ts" "height texture = ts"
    and st': "atlas st' = paste (atlas st) texture ((i mod tpr) * ts, (i div tpr) * ts)"
    by auto
  from assms(2) True entry have "\<not> in_cell ts tpr i p" by simp
  then show ?thesis
    by (simp add: st' pix_paste paste_box_def in_cell_def tex)
qed

lemma loop_files:
  "loop e d ts tpr tbl st = Inr st' \<Longrightarrow> files st' = files st"
proof (induction tbl arbitrary: st)
  case Nil
  then show ?case by simp
next
  case (Cons entry entries)
  then show ?case
    by (auto split: sum.splits dest: process_entry_files)
qed

lemma loop_dims:
  "loop e d ts tpr tbl st = Inr st' \<Longrightarrow>
   width (atlas st') = width (atlas st) \<and> height (atlas st') = height (atlas st)"
proof (induction tbl arbitrary: st)
  case Nil
  then show ?case by simp
next
  case (Cons entry entries)
  then show ?case
    by (auto split: sum.splits dest: process_entry_dims)
qed

lemma loop_outside:
  "loop e d ts tpr tbl st = Inr st' \<Longrightarrow>
   list_all (\<lambda>entry. placed e d (files st) entry \<longrightarrow> \<not> in_cell ts tpr (snd entry) p) tbl \<Longrightarrow>
   pix (atlas st') p = pix (atlas st) p"
proof (induction tbl arbitrary: st)
  case Nil
  then show ?case by simp
next
  case (Cons entry entries)
  from Cons.prems(1) obtain st1 where
    step: "process_entry e d ts tpr st entry = Inr st1" and
    rest: "loop e d ts tpr entries st1 = Inr st'"
    by (auto split: sum.splits)
  have fs: "files st1 = files st" using step by (rule process_entry_files)
  have "pix (atlas st') p = pix (atlas st1) p"
    using Cons.IH [OF rest] Cons.prems(2) by (simp add: fs)
  also have "\<dots> = pix (atlas st) p"
    using step Cons.prems(2) by (auto intro: process_entry_outside)
  finally show ?case .
qed

lemma div_unique_cell:
  fixes x c ts :: int
  assumes "c * ts \<le> x" "x < c * ts + ts"
  shows "0 < ts \<and> x div ts = c"
proof -
  from assms have pos: "0 < ts" by linarith
  have "x = ts * c + (x - c * ts)" by (simp add: mult.commute)
  moreover have "0 \<le> x - c * ts" "x - c * ts < ts" using assms by linarith+
  ultimately have "x div ts = c" by (rule int_div_pos_eq)
  with pos show ?thesis by simp
qed

lemma cells_disjoint:
  assumes "in_cell ts tpr i p" "in_cell ts tpr j p"
  shows "i = j"
proof -
  from assms(1) have "fst p div ts = i mod tpr" "snd p div ts = i div tpr"
    by (auto simp: in_cell_def in_box_def dest: div_unique_cell)
  moreover from assms(2) have "fst p div ts = j mod tpr" "snd p div ts = j div tpr"
    by (auto simp: in_cell_def in_box_def dest: div_unique_cell)
  ultimately have "i mod tpr = j mod tpr" "i div tpr = j div tpr" by simp_all
  then have "i div tpr * tpr + i mod tpr = j div tpr * tpr + j mod tpr" by simp
  then show ?thesis by simp
qed

lemma loop_inside:
  "loop e d ts tpr tbl st = Inr st' \<Longrightarrow>
   distinct (map snd tbl) \<Longrightarrow>
   (name, i) \<in> set tbl \<Longrightarrow>
   name \<noteq> ''air'' \<Longrightarrow>
   files st (tile_path e d name) = Some (Png im) \<Longrightarrow>
   in_cell ts tpr i p \<Longrightarrow>
   in_box (0, 0, width (atlas st), height (atlas st)) p \<Longrightarrow>
   \<exists>texture. resize e im (ts, ts) = Inr texture \<and>
     pix (atlas st') p = pix texture (fst p - (i mod tpr) * ts, snd p - (i div tpr) * ts)"
proof (induction tbl arbitrary: st)
  case Nil
  then show ?case by simp
next
  case (Cons entry entries)
  from Cons.prems(1) obtain st1 where
    step: "process_entry e d ts tpr st entry = Inr st1" and
    rest: "loop e d ts tpr entries st1 = Inr st'"
    by (auto split: sum.splits)
  have fs: "files st1 = files st" using step by (rule process_entry_files)
  have dims: "width (atlas st1) = width (atlas st)" "height (atlas st1) = height (atlas st)"
    using process_entry_dims [OF step] by simp_all
  show ?case
  proof (cases "entry = (name, i)")
    case True
    have pl: "placed e d (files st) (name, i)"
      using Cons.prems(4,5) by (simp add: placed_def)
    from process_entry_placed [OF step [unfolded True] pl] Cons.prems(5)
    obtain texture where
      rs: "resize e im (ts, ts) = Inr texture" and
      sz: "width texture = ts" "height texture = ts" and
      st1: "atlas st1 = paste (atlas st) texture ((i mod tpr) * ts, (i div tpr) * ts)"
      by auto
    have here: "pix (atlas st1) p = pix texture (fst p - (i mod tpr) * ts, snd p - (i div tpr) * ts)"
      using Cons.prems(6,7) by (simp add: st1 pix_paste paste_box_def sz in_cell_def)
    have "list_all (\<lambda>entry. placed e d (files st1) entry \<longrightarrow> \<not> in_cell ts tpr (snd entry) p) entries"
    proof -
      have "\<not> in_cell ts tpr (snd x) p" if "x \<in> set entries" for x
      proof
        assume "in_cell ts tpr (snd x) p"
        with Cons.prems(6) have "snd x = i" by (rule cells_disjoint [symmetric])
        with that Cons.prems(2) True show False by (auto simp: image_iff)
      qed
      then show ?thesis by (simp add: list_all_iff)
    qed
    from loop_outside [OF rest this] here rs show ?thesis by auto
  next
    case False
    with Cons.prems(3) have mem: "(name, i) \<in> set entries" by simp
    from Cons.prems(2) have dist: "distinct (map snd entries)" by simp
    show ?thesis
      using Cons.IH [OF rest dist mem Cons.prems(4) _ Cons.prems(6)] Cons.prems(5,7)
      by (simp add: fs dims)
  qed
qed

lemma process_entry_succeeds:
  "(\<exists>st'. process_entry e d ts tpr st entry = Inr st') = succeeds e d ts tpr (files st) entry"
  by (cases entry)
     (auto simp: succeeds_def process_entry_def Let_def split: sum.splits prod.splits)

lemma loop_succeeds:
  "(\<exists>st'. loop e d ts tpr tbl st = Inr st') = list_all (succeeds e d ts tpr (files st)) tbl"
proof (induction tbl arbitrary: st)
  case Nil
  then show ?case by simp
next
  case (Cons entry entries)
  show ?case
  proof (cases "process_entry e d ts tpr st entry")
    case (Inl err)
    with process_entry_succeeds [of e d ts tpr st entry] show ?thesis by simp
  next
    case (Inr st1)
    then have "files st1 = files st" by (rule process_entry_files)
    with Inr Cons.IH [of st1] process_entry_succeeds [of e d ts tpr st entry]
    show ?thesis by simp
  qed
qed

lemma loop_outside_canvas:
  "loop e d ts tpr tbl st = Inr st' \<Longrightarrow>
   \<not> in_box (0, 0, width (atlas st), height (atlas st)) p \<Longrightarrow>
   pix (atlas st') p = pix (atlas st) p"
proof (induction tbl arbitrary: st)
  case Nil
  then show ?case by simp
next
  case (Cons entry entries)
  from Cons.prems(1) obtain st1 where
    step: "process_entry e d ts tpr st entry = Inr st1" and
    rest: "loop e d ts tpr entries st1 = Inr st'"
    by (auto split: sum.splits)
  have dims: "width (atlas st1) = width (atlas st)" "height (atlas st1) = height (atlas st)"
    using process_entry_dims [OF step] by simp_all
  have "pix (atlas st1) p = pix (atlas st) p"
    using step Cons.prems(2)
    by (cases entry)
       (auto simp: process_entry_def Let_def pix_paste split: if_splits sum.splits prod.splits)
  with Cons.IH [OF rest] Cons.prems(2) show ?case by (simp add: dims)
qed

lemma loop_placed_png:
  assumes "loop e d ts tpr tbl st = Inr st'" "(name, i) \<in> set tbl"
    "placed e d (files st) (name, i)"
  shows "\<exists>im. files st (tile_path e d name) = Some (Png im)"
proof -
  from assms(1) have "list_all (succeeds e d ts tpr (files st)) tbl"
    using loop_succeeds [of e d ts tpr tbl st] by auto
  with assms(2) have "succeeds e d ts tpr (files st) (name, i)"
    by (auto simp: list_all_iff)
  then obtain s where "process_entry e d ts tpr st (name, i) = Inr s"
    using process_entry_succeeds [of e d ts tpr st "(name, i)"] by auto
  from process_entry_placed [OF this assms(3)] show ?thesis by auto
qed

lemma loop_atlas_set:
  assumes one: "loop e d ts tpr tbl st = Inr st1"
    and two: "loop e d ts tpr tbl' st = Inr st2"
    and same: "set tbl = set tbl'"
    and dist: "distinct (map snd tbl)" "distinct (map snd tbl')"
  shows "atlas st1 = atlas st2"
proof -
  have "pix (atlas st1) p = pix (atlas st2) p" for p
  proof (cases "in_box (0, 0, width (atlas st), height (atlas st)) p
      \<and> (\<exists>entry \<in> set tbl. placed e d (files st) entry \<and> in_cell ts tpr (snd entry) p)")
    case True
    then obtain name i where mem: "(name, i) \<in> set tbl"
      and pl: "placed e d (files st) (name, i)" and cell: "in_cell ts tpr i p"
      and canvas: "in_box (0, 0, width (atlas st), height (atlas st)) p"
      by auto
    from loop_placed_png [OF one mem pl] obtain im where
      im: "files st (tile_path e d name) = Some (Png im)" by auto
    from pl have air: "name \<noteq> ''air''" by (simp add: placed_def)
    from mem same have mem': "(name, i) \<in> set tbl'" by simp
    from loop_inside [OF one dist(1) mem air im cell canvas]
      loop_inside [OF two dist(2) mem' air im cell canvas]
    show ?thesis by auto
  next
    case False
    show ?thesis
    proof (cases "in_box (0, 0, width (atlas st), height (atlas st)) p")
      case False
      from loop_outside_canvas [OF one False] loop_outside_canvas [OF two False]
      show ?thesis by simp
    next
      case True
      with False have none:
        "list_all (\<lambda>entry. placed e d (files st) entry \<longrightarrow> \<not> in_cell ts tpr (snd entry) p) tbl"
        by (auto simp: list_all_iff)
      then have none':
        "list_all (\<lambda>entry. placed e d (files st) entry \<longrightarrow> \<not> in_cell ts tpr (snd entry) p) tbl'"
        using same by (simp add: list_all_iff)
      from loop_outside [OF one none] loop_outside [OF two none'] show ?thesis by simp
    qed
  qed
  then have "pix (atlas st1) = pix (atlas st2)" by (rule ext)
  moreover have "width (atlas st1) = width (atlas st2)" "height (atlas st1) = height (atlas st2)"
    using loop_dims [OF one] loop_dims [OF two] by simp_all
  ultimately show ?thesis by simp
qed

lemma loop_append:
  "loop e d ts tpr (xs @ ys) st =
     (case loop e d ts tpr xs st of Inl err \<Rightarrow> Inl err | Inr s \<Rightarrow> loop e d ts tpr ys s)"
  by (induction xs arbitrary: st) (auto split: sum.splits)

lemma process_entry_set_trace:
  "process_entry e d ts tpr (st\<lparr>trace := t\<rparr>) entry =
     map_sum (\<lambda>err. err) (\<lambda>s. s\<lparr>trace := t @ entry_events e d (files st) entry\<rparr>)
       (process_entry e d ts tpr st entry)"
  by (cases entry)
     (auto simp: process_entry_def entry_events_def Let_def split: sum.splits prod.splits)

lemma process_entry_trace:
  "process_entry e d ts tpr st entry = Inr st' \<Longrightarrow>
   trace st' = trace st @ entry_events e d (files st) entry"
  by (cases entry)
     (auto simp: process_entry_def entry_events_def Let_def
           split: if_splits sum.splits prod.splits)

lemma loop_trace:
  "loop e d ts tpr tbl st = Inr st' \<Longrightarrow>
   trace st' = trace st @ concat (map (entry_events e d (files st)) tbl)"
proof (induction tbl arbitrary: st)
  case Nil
  then show ?case by simp
next
  case (Cons entry entries)
  from Cons.prems obtain st1 where
    step: "process_entry e d ts tpr st entry = Inr st1" and
    rest: "loop e d ts tpr entries st1 = Inr st'"
    by (auto split: sum.splits)
  from Cons.IH [OF rest] process_entry_trace [OF step] process_entry_files [OF step]
  show ?case by simp
qed

lemma loop_set_trace:
  "loop e d ts tpr tbl (st\<lparr>trace := t\<rparr>) =
     map_sum (\<lambda>err. err) (\<lambda>s. s\<lparr>trace := t @ concat (map (entry_events e d (files st)) tbl)\<rparr>)
       (loop e d ts tpr tbl st)"
proof (induction tbl arbitrary: st t)
  case Nil
  then show ?case by simp
next
  case (Cons entry entries)
  show ?case
  proof (cases "process_entry e d ts tpr st entry")
    case (Inl err)
    then show ?thesis by (simp add: process_entry_set_trace)
  next
    case (Inr st1)
    have fs: "files st1 = files st" using Inr by (rule process_entry_files)
    have "loop e d ts tpr (entry # entries) (st\<lparr>trace := t\<rparr>) =
        loop e d ts tpr entries (st1\<lparr>trace := t @ entry_events e d (files st) entry\<rparr>)"
      by (simp add: process_entry_set_trace Inr)
    also have "\<dots> = map_sum (\<lambda>err. err)
        (\<lambda>s. s\<lparr>trace := (t @ entry_events e d (files st) entry)
                 @ concat (map (entry_events e d (files st)) entries)\<rparr>)
        (loop e d ts tpr entries st1)"
      using Cons.IH [where st = st1 and t = "t @ entry_events e d (files st) entry"]
      by (simp add: fs)
    finally show ?thesis by (simp add: Inr)
  qed
qed

lemma process_entry_set_files:
  assumes "fst entry \<noteq> ''air'' \<longrightarrow>
      fs (tile_path e d (fst entry)) = files st (tile_path e d (fst entry))"
  shows "process_entry e d ts tpr (st\<lparr>files := fs\<rparr>) entry =
     map_sum (\<lambda>err. err) (\<lambda>s. s\<lparr>files := fs\<rparr>) (process_entry e d ts tpr st entry)"
  using assms
  by (cases entry)
     (auto simp: process_entry_def Image_open_def Let_def split: sum.splits prod.splits)

lemma loop_set_files:
  "list_all (\<lambda>entry. fst entry \<noteq> ''air'' \<longrightarrow>
      fs (tile_path e d (fst entry)) = files st (tile_path e d (fst entry))) tbl \<Longrightarrow>
   loop e d ts tpr tbl (st\<lparr>files := fs\<rparr>) =
     map_sum (\<lambda>err. err) (\<lambda>s. s\<lparr>files := fs\<rparr>) (loop e d ts tpr tbl st)"
proof (induction tbl arbitrary: st)
  case Nil
  then show ?case by simp
next
  case (Cons entry entries)
  from Cons.prems have here: "fst entry \<noteq> ''air'' \<longrightarrow>
      fs (tile_path e d (fst entry)) = files st (tile_path e d (fst entry))"
    by simp
  show ?case
  proof (cases "process_entry e d ts tpr st entry")
    case (Inl err)
    have "process_entry e d ts tpr (st\<lparr>files := fs\<rparr>) entry =
        map_sum (\<lambda>err. err) (\<lambda>s. s\<lparr>files := fs\<rparr>) (process_entry e d ts tpr st entry)"
      using here by (rule process_entry_set_files)
    with Inl show ?thesis by simp
  next
    case (Inr st1)
    have fs: "files st1 = files st" using Inr by (rule process_entry_files)
    from Cons.prems have "list_all (\<lambda>entry. fst entry \<noteq> ''air'' \<longrightarrow>
      fs (tile_path e d (fst entry)) = files st1 (tile_path e d (fst entry))) entries"
      by (simp add: fs)
    from Cons.IH [OF this] have rest: "loop e d ts tpr entries (st1\<lparr>files := fs\<rparr>) =
        map_sum (\<lambda>err. err) (\<lambda>s. s\<lparr>files := fs\<rparr>) (loop e d ts tpr entries st1)" .
    have "process_entry e d ts tpr (st\<lparr>files := fs\<rparr>) entry =
        map_sum (\<lambda>err. err) (\<lambda>s. s\<lparr>files := fs\<rparr>) (process_entry e d ts tpr st entry)"
      using here by (rule process_entry_set_files)
    with Inr rest show ?thesis by simp
  qed
qed

subsection \<open>Unfolding a run\<close>

lemma blank_new: "0 \<le> n \<Longrightarrow> Image_new (n, n) (0, 0, 0, 0) = Inr (blank n)"
  by (simp add: Image_new_def blank_def)

lemma build_unfold:
  assumes "0 \<le> atlas_size" "texture_size \<noteq> 0"
  shows "build e d texture_size atlas_size tbl fs =
     (case loop e d texture_size (atlas_size div texture_size) tbl
             \<lparr>atlas = blank atlas_size, trace = [], files = fs\<rparr> of
        Inl err \<Rightarrow> Inl err
      | Inr st \<Rightarrow>
          if \<not> writable e OUTPUT then Inl OSError
          else if atlas_size = 0 then Inl ValueError
          else Inr \<lparr>atlas = atlas st,
                    trace = trace st @ [Save OUTPUT, Print (summary atlas_size)],
                    files = write_file e (files st) OUTPUT (atlas st)\<rparr>)"
proof (cases "loop e d texture_size (atlas_size div texture_size) tbl
             \<lparr>atlas = blank atlas_size, trace = [], files = fs\<rparr>")
  case (Inl err)
  with assms show ?thesis
    by (simp add: build_def blank_new Let_def)
next
  case (Inr st)
  from loop_dims [OF Inr] have "width (atlas st) = atlas_size" "height (atlas st) = atlas_size"
    by (simp_all add: blank_def)
  with assms Inr show ?thesis
    by (simp add: build_def blank_new save_def Let_def)
qed

lemma build_Inr:
  assumes "build e d ts asz tbl fs = Inr r"
  shows "0 \<le> asz \<and> asz \<noteq> 0 \<and> ts \<noteq> 0 \<and> writable e OUTPUT \<and>
    (\<exists>st. loop e d ts (asz div ts) tbl \<lparr>atlas = blank asz, trace = [], files = fs\<rparr> = Inr st
       \<and> r = \<lparr>atlas = atlas st, trace = trace st @ [Save OUTPUT, Print (summary asz)],
               files = write_file e fs OUTPUT (atlas st)\<rparr>)"
proof -
  from assms have a: "0 \<le> asz"
    by (auto simp: build_def Image_new_def split: if_splits)
  from assms have t: "ts \<noteq> 0"
    by (auto simp: build_def Image_new_def split: if_splits sum.splits)
  from assms show ?thesis
    unfolding build_unfold [OF a t]
    by (auto simp: a t split: sum.splits if_splits dest: loop_files)
qed

subsection \<open>Cells and the finished atlas\<close>

lemma cell_in_canvas:
  assumes ts: "0 < ts" and asz: "0 \<le> asz" and lo: "0 \<le> i" and hi: "i < (asz div ts) * (asz div ts)"
    and cell: "in_cell ts (asz div ts) i p"
  shows "in_box (0, 0, asz, asz) p"
proof -
  define tpr where "tpr = asz div ts"
  have tpr_nz: "tpr \<noteq> 0" using hi lo by (auto simp: tpr_def)
  have "0 \<le> tpr" using ts asz by (simp add: tpr_def pos_imp_zdiv_nonneg_iff)
  with tpr_nz have tpr_pos: "0 < tpr" by simp
  have col: "0 \<le> i mod tpr" "i mod tpr < tpr" using tpr_pos by simp_all
  have row0: "0 \<le> i div tpr" using lo tpr_pos by (simp add: pos_imp_zdiv_nonneg_iff)
  have row1: "i div tpr < tpr"
  proof (rule ccontr)
    assume "\<not> i div tpr < tpr"
    then have "tpr * tpr \<le> i div tpr * tpr"
      using tpr_pos by (intro mult_right_mono) simp_all
    moreover have "i div tpr * tpr \<le> i"
    proof -
      have "i = i div tpr * tpr + i mod tpr" by simp
      with col(1) show ?thesis by linarith
    qed
    ultimately show False using hi by (simp add: tpr_def [symmetric])
  qed
  have fit: "tpr * ts \<le> asz"
  proof -
    have "asz = tpr * ts + asz mod ts" by (simp add: tpr_def)
    moreover have "0 \<le> asz mod ts" using ts by simp
    ultimately show ?thesis by linarith
  qed
  have c1: "(i mod tpr) * ts + ts \<le> tpr * ts"
  proof -
    have "(i mod tpr + 1) * ts \<le> tpr * ts"
      using col ts by (intro mult_right_mono) simp_all
    then show ?thesis by (simp add: algebra_simps)
  qed
  have r1: "(i div tpr) * ts + ts \<le> tpr * ts"
  proof -
    have "(i div tpr + 1) * ts \<le> tpr * ts"
      using row1 ts by (intro mult_right_mono) simp_all
    then show ?thesis by (simp add: algebra_simps)
  qed
  have c0: "0 \<le> (i mod tpr) * ts" using col ts by simp
  have r0: "0 \<le> (i div tpr) * ts" using row0 ts by simp
  from cell c0 c1 r0 r1 fit show ?thesis
    by (auto simp: in_cell_def in_box_def tpr_def [symmetric])
qed

lemma build_outside:
  assumes "build e d ts asz tbl fs = Inr r"
    and "list_all (\<lambda>entry. placed e d fs entry \<longrightarrow> \<not> in_cell ts (asz div ts) (snd entry) p) tbl"
  shows "pix (atlas r) p = (0, 0, 0, 0)"
proof -
  from build_Inr [OF assms(1)] obtain st where
    lp: "loop e d ts (asz div ts) tbl \<lparr>atlas = blank asz, trace = [], files = fs\<rparr> = Inr st"
    and r: "atlas r = atlas st"
    by auto
  from loop_outside [OF lp] assms(2) show ?thesis
    by (simp add: r blank_def)
qed

lemma build_inside:
  assumes run: "build e d ts asz tbl fs = Inr r"
    and dist: "distinct (map snd tbl)"
    and mem: "(name, i) \<in> set tbl"
    and air: "name \<noteq> ''air''"
    and png: "fs (tile_path e d name) = Some (Png im)"
    and cell: "in_cell ts (asz div ts) i p"
    and canvas: "in_box (0, 0, asz, asz) p"
  shows "\<exists>texture. resize e im (ts, ts) = Inr texture \<and>
     pix (atlas r) p =
       pix texture (fst p - (i mod (asz div ts)) * ts, snd p - (i div (asz div ts)) * ts)"
proof -
  from build_Inr [OF run] obtain st where
    lp: "loop e d ts (asz div ts) tbl \<lparr>atlas = blank asz, trace = [], files = fs\<rparr> = Inr st"
    and r: "atlas r = atlas st"
    by auto
  from loop_inside [OF lp dist mem air _ cell] png canvas show ?thesis
    by (simp add: r blank_def)
qed

lemma build_dims:
  assumes "build e d ts asz tbl fs = Inr r"
  shows "width (atlas r) = asz \<and> height (atlas r) = asz \<and>
    files r OUTPUT = Some (Png (atlas r)) \<and> Save OUTPUT \<in> set (trace r)"
proof -
  from build_Inr [OF assms] obtain st where
    lp: "loop e d ts (asz div ts) tbl \<lparr>atlas = blank asz, trace = [], files = fs\<rparr> = Inr st"
    and r: "r = \<lparr>atlas = atlas st, trace = trace st @ [Save OUTPUT, Print (summary asz)],
               files = write_file e fs OUTPUT (atlas st)\<rparr>"
    by auto
  from loop_dims [OF lp] show ?thesis by (simp add: r blank_def write_file_def)
qed

text \<open>
  A path that names the output file holds the written picture after the run, so a later
  run that reads a tile through such a path sees the atlas.
\<close>

lemma build_writes_aliases:
  assumes "build e d ts asz tbl fs = Inr r"
  shows "files r path =
     (if path = OUTPUT \<or> same_file e path OUTPUT then Some (Png (atlas r)) else fs path)"
proof -
  from build_Inr [OF assms] obtain st where
    lp: "loop e d ts (asz div ts) tbl \<lparr>atlas = blank asz, trace = [], files = fs\<rparr> = Inr st"
    and r: "r = \<lparr>atlas = atlas st, trace = trace st @ [Save OUTPUT, Print (summary asz)],
               files = write_file e fs OUTPUT (atlas st)\<rparr>"
    by auto
  show ?thesis by (simp add: r write_file_def)
qed

subsection \<open>Facts about the concrete run\<close>

lemma sample_resize: "resize sample_env dirt_png (16, 16) = Inr dirt_texture"
  by (simp add: resize_def dirt_png_def dirt_texture_def)

lemma str_int_2: "str_int 2 = ''2''"
  by code_simp

lemma sample_env_join: "os_path_join sample_env a b = a @ ''/'' @ b"
  by (simp add: sample_env_def)

lemma sample_env_writable: "writable sample_env path"
  by (simp add: sample_env_def)

lemma sample_write_file: "write_file sample_env fs name im = fs(name \<mapsto> Png im)"
  by (rule ext) (simp add: write_file_def sample_env_def)

lemma sample_build:
  "build sample_env ''tiles'' 16 256 [(''dirt'', 2)] sample_fs = Inr sample_result"
  by (simp add: build_unfold process_entry_def tile_path_def Image_open_def sample_resize
      row_col_def str_int_2 sample_result_def sample_fs_def sample_env_join Let_def
      sample_env_writable sample_write_file)

lemma resize_returns:
  assumes "0 < w" "0 < h"
  shows "\<exists>t. resize e im (w, h) = Inr t"
proof (cases "(width im, height im) = (w, h)")
  case True
  then show ?thesis by (simp add: resize_def)
next
  case False
  with assms show ?thesis by (simp add: resize_def)
qed

lemma sample_invariant: "table_invariant 256 16 [(''dirt'', 2)]"
  by (simp add: table_invariant_def)

lemma sample_png: "sample_fs (tile_path sample_env ''tiles'' ''dirt'') = Some (Png dirt_png)"
  by (simp add: sample_fs_def tile_path_def sample_env_join)

lemma two_build:
  "build sample_env ''tiles'' 16 256 [(''dirt'', 2), (''sand'', 5)] two_fs =
     Inr \<lparr>atlas = paste (paste (blank 256) dirt_texture (32, 0)) sand_png (80, 0),
          trace = [Exists ''tiles/dirt.png'', Open ''tiles/dirt.png'',
                   Print ''Added dirt at index 2'',
                   Exists ''tiles/sand.png'', Open ''tiles/sand.png'',
                   Print ''Added sand at index 5'', Save OUTPUT, Print (summary 256)],
          files = two_fs(OUTPUT \<mapsto>
            Png (paste (paste (blank 256) dirt_texture (32, 0)) sand_png (80, 0)))\<rparr>"
proof -
  have s5: "str_int 5 = ''5''" by code_simp
  have rs: "resize sample_env sand_png (16, 16) = Inr sand_png"
    by (simp add: resize_def sand_png_def)
  show ?thesis
    by (simp add: build_unfold process_entry_def tile_path_def Image_open_def sample_resize rs
        row_col_def str_int_2 s5 two_fs_def sample_fs_def sample_env_join Let_def
        sample_env_writable sample_write_file)
qed

subsection \<open>Runs on file systems that agree on the tiles\<close>

lemma build_set_files:
  assumes agree: "list_all (\<lambda>entry. fst entry \<noteq> ''air'' \<longrightarrow>
      fs2 (tile_path e d (fst entry)) = fs1 (tile_path e d (fst entry))) tbl"
  shows "build e d ts asz tbl fs2 =
     map_sum (\<lambda>err. err) (\<lambda>s. s\<lparr>files := write_file e fs2 OUTPUT (atlas s)\<rparr>)
       (build e d ts asz tbl fs1)"
proof (cases "0 \<le> asz \<and> ts \<noteq> 0")
  case False
  then show ?thesis by (auto simp: build_def Image_new_def)
next
  case True
  then have asz: "0 \<le> asz" and ts: "ts \<noteq> 0" by simp_all
  let ?st = "\<lparr>atlas = blank asz, trace = [], files = fs1\<rparr>"
  have "loop e d ts (asz div ts) tbl (?st\<lparr>files := fs2\<rparr>) =
      map_sum (\<lambda>err. err) (\<lambda>s. s\<lparr>files := fs2\<rparr>) (loop e d ts (asz div ts) tbl ?st)"
    using agree by (intro loop_set_files) simp
  then have "loop e d ts (asz div ts) tbl \<lparr>atlas = blank asz, trace = [], files = fs2\<rparr> =
      map_sum (\<lambda>err. err) (\<lambda>s. s\<lparr>files := fs2\<rparr>) (loop e d ts (asz div ts) tbl ?st)"
    by simp
  then show ?thesis
    by (simp add: build_unfold [OF asz ts] split: sum.splits)
qed

subsection \<open>Entries that place nothing\<close>

lemma build_cell_untouched:
  assumes run: "build e d ts asz tbl fs = Inr r"
    and dist: "distinct (map snd tbl)"
    and mem: "(name, index) \<in> set tbl"
    and np: "\<not> placed e d fs (name, index)"
    and cell: "in_cell ts (asz div ts) index p"
  shows "pix (atlas r) p = (0, 0, 0, 0)"
proof -
  have "\<not> in_cell ts (asz div ts) (snd entry) p"
    if "entry \<in> set tbl" "placed e d fs entry" for entry
  proof
    assume "in_cell ts (asz div ts) (snd entry) p"
    with cell have same: "index = snd entry" by (rule cells_disjoint)
    from that(2) np have "entry \<noteq> (name, index)" by auto
    moreover from dist have "inj_on snd (set tbl)" by (simp add: distinct_map)
    then have "entry = (name, index)"
      using that(1) mem same by (metis inj_onD snd_conv)
    ultimately show False by simp
  qed
  then have "list_all (\<lambda>entry. placed e d fs entry \<longrightarrow>
      \<not> in_cell ts (asz div ts) (snd entry) p) tbl"
    by (auto simp: list_all_iff)
  with run show ?thesis by (rule build_outside)
qed

lemma build_insert_silent:
  assumes run: "build e d ts asz (pre @ rest) fs = Inr r"
    and step: "\<And>st. files st = fs \<Longrightarrow>
      process_entry e d ts (asz div ts) st entry = Inr (st\<lparr>trace := trace st @ ev\<rparr>)"
  shows "\<exists>r'. build e d ts asz (pre @ entry # rest) fs = Inr r'
    \<and> atlas r' = atlas r \<and> files r' = files r
    \<and> Save OUTPUT \<in> set (trace r') \<and> set ev \<subseteq> set (trace r')"
proof -
  let ?st = "\<lparr>atlas = blank asz, trace = [], files = fs\<rparr>"
  let ?tpr = "asz div ts"
  from build_Inr [OF run] obtain st where
    asz: "0 \<le> asz" and nz: "asz \<noteq> 0" and ts: "ts \<noteq> 0" and w: "writable e OUTPUT" and
    lp: "loop e d ts ?tpr (pre @ rest) ?st = Inr st" and
    r: "r = \<lparr>atlas = atlas st, trace = trace st @ [Save OUTPUT, Print (summary asz)],
             files = write_file e fs OUTPUT (atlas st)\<rparr>"
    by auto
  from lp obtain s where
    pre: "loop e d ts ?tpr pre ?st = Inr s" and
    rest: "loop e d ts ?tpr rest s = Inr st"
    by (auto simp: loop_append split: sum.splits)
  have fs: "files s = fs" using loop_files [OF pre] by simp
  have fst: "files st = fs" using loop_files [OF rest] fs by simp
  have "loop e d ts ?tpr (entry # rest) s =
      loop e d ts ?tpr rest (s\<lparr>trace := trace s @ ev\<rparr>)"
    by (simp add: step [OF fs])
  also have "\<dots> = Inr (st\<lparr>trace := (trace s @ ev) @
      concat (map (entry_events e d (files s)) rest)\<rparr>)"
    by (simp add: loop_set_trace rest)
  finally have "loop e d ts ?tpr (pre @ entry # rest) ?st =
      Inr (st\<lparr>trace := (trace s @ ev) @ concat (map (entry_events e d (files s)) rest)\<rparr>)"
    by (simp add: loop_append pre)
  then show ?thesis
    by (auto simp: build_unfold [OF asz ts] nz w r fst)
qed

lemma sand_missing: "sample_fs (tile_path sample_env ''tiles'' ''sand'') = None"
  by (simp add: sample_fs_def tile_path_def sample_env_join)

lemma loop_filter_air:
  "loop e d ts tpr (filter (\<lambda>entry. fst entry \<noteq> ''air'') tbl) st = loop e d ts tpr tbl st"
proof (induction tbl arbitrary: st)
  case Nil
  then show ?case by simp
next
  case (Cons entry entries)
  obtain name index where entry: "entry = (name, index)" by (cases entry)
  show ?case
  proof (cases "name = ''air''")
    case True
    with Cons.IH show ?thesis by (simp add: entry)
  next
    case False
    with Cons.IH show ?thesis by (simp add: entry split: sum.splits)
  qed
qed

lemma build_filter_air:
  "build e d ts asz (filter (\<lambda>entry. fst entry \<noteq> ''air'') tbl) fs = build e d ts asz tbl fs"
  unfolding build_def loop_filter_air by (rule refl)

lemma build_trace:
  assumes "build e d ts asz tbl fs = Inr r"
  shows "trace r = concat (map (entry_events e d fs) tbl) @ [Save OUTPUT, Print (summary asz)]"
proof -
  from build_Inr [OF assms] obtain st where
    lp: "loop e d ts (asz div ts) tbl \<lparr>atlas = blank asz, trace = [], files = fs\<rparr> = Inr st"
    and r: "r = \<lparr>atlas = atlas st, trace = trace st @ [Save OUTPUT, Print (summary asz)],
               files = write_file e fs OUTPUT (atlas st)\<rparr>"
    by auto
  from loop_trace [OF lp] show ?thesis by (simp add: r)
qed

subsection \<open>Diagnostics that name the sentinel\<close>

lemma digit_char_not_space: "d < 10 \<Longrightarrow> digit_char d \<noteq> CHR '' ''"
proof
  assume d: "d < 10" and "digit_char d = CHR '' ''"
  then have "of_char (char_of (48 + d) :: char) = (of_char (CHR '' '') :: nat)"
    by (simp add: digit_char_def)
  with d show False by simp
qed

lemma str_nat_no_space: "CHR '' '' \<notin> set (str_nat n)"
proof (induction n rule: str_nat.induct)
  case (1 n)
  show ?case
  proof (cases "n < 10")
    case True
    then show ?thesis
      using digit_char_not_space [of n] by (subst str_nat.simps) auto
  next
    case False
    have "n mod 10 < 10" by simp
    then have "digit_char (n mod 10) \<noteq> CHR '' ''" by (rule digit_char_not_space)
    with False "1.IH" show ?thesis
      by (subst str_nat.simps) auto
  qed
qed

lemma str_int_no_space: "CHR '' '' \<notin> set (str_int i)"
  by (simp add: str_int_def str_nat_no_space)

lemma spaced_suffix_unique:
  assumes eq: "a @ CHR '' '' # s = b @ CHR '' '' # t"
    and s: "CHR '' '' \<notin> set s" and t: "CHR '' '' \<notin> set t"
  shows "a = b"
proof -
  from eq have "rev (a @ CHR '' '' # s) = rev (b @ CHR '' '' # t)"
    by (rule arg_cong)
  then have "rev s @ CHR '' '' # rev a = rev t @ CHR '' '' # rev b"
    by simp
  then have "takeWhile (\<lambda>c. c \<noteq> CHR '' '') (rev s @ CHR '' '' # rev a) =
      takeWhile (\<lambda>c. c \<noteq> CHR '' '') (rev t @ CHR '' '' # rev b)"
    by simp
  moreover have "takeWhile (\<lambda>c. c \<noteq> CHR '' '') (rev s @ CHR '' '' # rev a) = rev s"
    using s by (auto simp: takeWhile_tail)
  moreover have "takeWhile (\<lambda>c. c \<noteq> CHR '' '') (rev t @ CHR '' '' # rev b) = rev t"
    using t by (auto simp: takeWhile_tail)
  ultimately have "s = t" by simp
  with eq show ?thesis by simp
qed

lemma added_names_air:
  assumes "''Added '' @ n @ '' at index '' @ str_int i = ''Added air at index '' @ str_int j"
  shows "n = ''air''"
proof -
  from assms have "(n @ '' at index'') @ CHR '' '' # str_int i =
      ''air at index'' @ CHR '' '' # str_int j"
    by simp
  then have "n @ '' at index'' = ''air at index''"
    by (rule spaced_suffix_unique) (rule str_int_no_space)+
  then have "n @ '' at index'' = ''air'' @ '' at index''" by simp
  then show ?thesis by (simp only: append_same_eq)
qed

lemma no_air_diagnostic:
  assumes run: "build e d ts asz tbl fs = Inr r"
  shows "Print ''Missing: air'' \<notin> set (trace r)"
    and "Print (''Added air at index '' @ str_int i) \<notin> set (trace r)"
proof -
  note tr = build_trace [OF run]
  show "Print ''Missing: air'' \<notin> set (trace r)"
  proof
    assume "Print ''Missing: air'' \<in> set (trace r)"
    then consider "Print ''Missing: air'' = Print (summary asz)"
      | entry where "entry \<in> set tbl"
          "Print ''Missing: air'' \<in> set (entry_events e d fs entry)"
      by (auto simp: tr)
    then show False
    proof cases
      case 1
      then show False by (simp add: summary_def)
    next
      case 2
      then show False
        by (auto simp: entry_events_def split: if_splits)
    qed
  qed
  show "Print (''Added air at index '' @ str_int i) \<notin> set (trace r)"
  proof
    assume "Print (''Added air at index '' @ str_int i) \<in> set (trace r)"
    then consider "Print (''Added air at index '' @ str_int i) = Print (summary asz)"
      | entry where "entry \<in> set tbl"
          "Print (''Added air at index '' @ str_int i) \<in> set (entry_events e d fs entry)"
      by (auto simp: tr)
    then show False
    proof cases
      case 1
      then show False by (simp add: summary_def)
    next
      case 2
      then have ne: "fst entry \<noteq> ''air''" and
        eq: "''Added '' @ fst entry @ '' at index '' @ str_int (snd entry) =
          ''Added air at index '' @ str_int i"
        by (auto simp: entry_events_def split: if_splits)
      from eq have "fst entry = ''air''" by (rule added_names_air)
      with ne show False by simp
    qed
  qed
qed

section \<open>The claims\<close>

text \<open>
  C9. The compiled-in table \<^verbatim>\<open>TEXTURE_MAP\<close> satisfies the table invariant: its slot
  indices are pairwise distinct and each lies in \<open>[0, 256)\<close>, where \<open>256\<close> is the square
  of \<^verbatim>\<open>ATLAS_SIZE // TEXTURE_SIZE\<close>.
\<close>

theorem texture_map_invariant:
  "distinct (map snd TEXTURE_MAP) \<and>
   list_all (\<lambda>entry. 0 \<le> snd entry \<and> snd entry < 256) TEXTURE_MAP \<and>
   (ATLAS_SIZE div TEXTURE_SIZE) * (ATLAS_SIZE div TEXTURE_SIZE) = 256 \<and>
   table_invariant ATLAS_SIZE TEXTURE_SIZE TEXTURE_MAP"
  by (simp add: table_invariant_def TEXTURE_MAP_def ATLAS_SIZE_def TEXTURE_SIZE_def)

text \<open>
  C4. For a slot index in \<open>[0, textures_per_row\<^sup>2)\<close> the row and column computed by
  integer division and modulo recover the index: \<open>row * textures_per_row + col = index\<close>
  (and the computation does not raise, since the range is not empty).
\<close>

theorem row_col_round_trip:
  assumes "0 \<le> index" and "index < textures_per_row * textures_per_row"
  shows "\<exists>row col. row_col index textures_per_row = Inr (row, col)
           \<and> row * textures_per_row + col = index"
proof -
  from assms have "textures_per_row \<noteq> 0" by auto
  then show ?thesis by (simp add: row_col_def)
qed

theorem row_col_round_trip_witness:
  "(0::int) \<le> 17 \<and> (17::int) < 16 * 16 \<and>
   row_col 17 16 = Inr (1, 1) \<and> (1::int) * 16 + 1 = 17"
  using row_col_round_trip [of 17 16] by (simp add: row_col_def)

text \<open>
  C1. An entry \<open>(name, index)\<close> other than the sentinel whose file exists and decodes
  to a picture \<open>im\<close>: the picture is resized to exactly \<open>texture_size \<times> texture_size\<close>,
  the cell is \<open>row = index div textures_per_row\<close>, \<open>col = index mod textures_per_row\<close>
  with \<open>textures_per_row = atlas_size div texture_size\<close>, and the loop body pastes the
  resized picture at the offset \<open>(col * texture_size, row * texture_size)\<close>. When the
  table satisfies its invariant and the run returns, every pixel of that cell of the
  written atlas is the corresponding pixel of the resized picture. Index \<open>0\<close> is cell
  \<open>(0, 0)\<close> and index \<open>textures_per_row\<^sup>2 - 1\<close> is the bottom-right cell.
\<close>

theorem placed_tile_cell:
  assumes air: "name \<noteq> ''air''"
    and png: "fs (tile_path e d name) = Some (Png im)"
    and ts: "0 < texture_size" "texture_size \<le> atlas_size"
    and tpr: "textures_per_row = atlas_size div texture_size"
  shows "\<exists>texture.
      resize e im (texture_size, texture_size) = Inr texture
    \<and> width texture = texture_size \<and> height texture = texture_size
    \<and> row_col index textures_per_row =
        Inr (index div textures_per_row, index mod textures_per_row)
    \<and> (\<forall>st. files st = fs \<longrightarrow>
         process_entry e d texture_size textures_per_row st (name, index) =
           Inr (st\<lparr>atlas := paste (atlas st) texture
                               ((index mod textures_per_row) * texture_size,
                                (index div textures_per_row) * texture_size),
                    trace := trace st @
                      [Exists (tile_path e d name), Open (tile_path e d name),
                       Print (''Added '' @ name @ '' at index '' @ str_int index)]\<rparr>))
    \<and> (\<forall>tbl r p. table_invariant atlas_size texture_size tbl \<and> (name, index) \<in> set tbl
           \<and> build e d texture_size atlas_size tbl fs = Inr r
           \<and> in_cell texture_size textures_per_row index p \<longrightarrow>
         pix (atlas r) p =
           pix texture (fst p - (index mod textures_per_row) * texture_size,
                        snd p - (index div textures_per_row) * texture_size))
    \<and> row_col 0 textures_per_row = Inr (0, 0)
    \<and> row_col (textures_per_row * textures_per_row - 1) textures_per_row =
        Inr (textures_per_row - 1, textures_per_row - 1)"
proof -
  from ts have asz: "0 \<le> atlas_size" by simp
  have pos: "0 < textures_per_row"
    using ts by (simp add: tpr pos_imp_zdiv_pos_iff)
  then have nz: "textures_per_row \<noteq> 0" by simp
  obtain texture where rs: "resize e im (texture_size, texture_size) = Inr texture"
    using resize_returns [OF ts(1) ts(1)] by blast
  from resize_size [OF rs] have sz: "width texture = texture_size" "height texture = texture_size"
    by simp_all
  have rc: "row_col index textures_per_row =
      Inr (index div textures_per_row, index mod textures_per_row)"
    using nz by (simp add: row_col_def)
  have step: "process_entry e d texture_size textures_per_row st (name, index) =
      Inr (st\<lparr>atlas := paste (atlas st) texture
                          ((index mod textures_per_row) * texture_size,
                           (index div textures_per_row) * texture_size),
               trace := trace st @
                 [Exists (tile_path e d name), Open (tile_path e d name),
                  Print (''Added '' @ name @ '' at index '' @ str_int index)]\<rparr>)"
    if "files st = fs" for st
    using that air png rs rc by (simp add: process_entry_def Image_open_def Let_def)
  have cellpix: "pix (atlas r) p =
      pix texture (fst p - (index mod textures_per_row) * texture_size,
                   snd p - (index div textures_per_row) * texture_size)"
    if inv: "table_invariant atlas_size texture_size tbl"
      and mem: "(name, index) \<in> set tbl"
      and run: "build e d texture_size atlas_size tbl fs = Inr r"
      and c: "in_cell texture_size textures_per_row index p" for tbl r p
  proof -
    from inv mem have range: "0 \<le> index"
      "index < (atlas_size div texture_size) * (atlas_size div texture_size)"
      and dist: "distinct (map snd tbl)"
      by (auto simp: table_invariant_def list_all_iff)
    have canvas: "in_box (0, 0, atlas_size, atlas_size) p"
      using cell_in_canvas [OF ts(1) asz range c [unfolded tpr]] .
    from build_inside [OF run dist mem air png c [unfolded tpr] canvas] rs
    show ?thesis by (simp add: tpr)
  qed
  have first: "row_col 0 textures_per_row = Inr (0, 0)"
    using nz by (simp add: row_col_def)
  have "textures_per_row * textures_per_row - 1 =
      textures_per_row * (textures_per_row - 1) + (textures_per_row - 1)"
    by (simp add: algebra_simps)
  moreover have "0 \<le> textures_per_row - 1" "textures_per_row - 1 < textures_per_row"
    using pos by simp_all
  ultimately have
    "(textures_per_row * textures_per_row - 1) div textures_per_row = textures_per_row - 1"
    "(textures_per_row * textures_per_row - 1) mod textures_per_row = textures_per_row - 1"
    by (auto intro: int_div_pos_eq int_mod_pos_eq)
  with nz have last: "row_col (textures_per_row * textures_per_row - 1) textures_per_row =
      Inr (textures_per_row - 1, textures_per_row - 1)"
    by (simp add: row_col_def)
  from rs sz rc step cellpix first last show ?thesis by blast
qed

theorem placed_tile_cell_witness:
  "''dirt'' \<noteq> ''air''
   \<and> sample_fs (tile_path sample_env ''tiles'' ''dirt'') = Some (Png dirt_png)
   \<and> (0::int) < 16 \<and> (16::int) \<le> 256 \<and> (16::int) = 256 div 16
   \<and> table_invariant 256 16 [(''dirt'', 2)]
   \<and> (''dirt'', 2) \<in> set [(''dirt'', 2::int)]
   \<and> build sample_env ''tiles'' 16 256 [(''dirt'', 2)] sample_fs = Inr sample_result
   \<and> in_cell 16 16 2 (40, 7)
   \<and> resize sample_env dirt_png (16, 16) = Inr dirt_texture
   \<and> row_col 2 16 = Inr (0, 2)
   \<and> pix (atlas sample_result) (40, 7) = pix dirt_texture (8, 7)
   \<and> row_col 255 16 = Inr (15, 15)"
proof -
  have air: "''dirt'' \<noteq> ''air''" by simp
  have ts: "(0::int) < 16" "(16::int) \<le> 256" by simp_all
  have tpr: "(16::int) = 256 div 16" by simp
  have mem: "(''dirt'', 2) \<in> set [(''dirt'', 2::int)]" by simp
  have cell: "in_cell 16 16 2 (40, 7)" by (simp add: in_cell_def in_box_def)
  from placed_tile_cell [where name = "''dirt''" and fs = sample_fs and e = sample_env
      and d = "''tiles''" and im = dirt_png and texture_size = 16 and atlas_size = 256
      and textures_per_row = 16 and index = 2, OF air sample_png ts tpr]
  obtain texture where
    rs: "resize sample_env dirt_png (16, 16) = Inr texture" and
    rc: "row_col 2 16 = Inr (2 div 16, 2 mod 16)" and
    px: "\<forall>tbl r p. table_invariant 256 16 tbl \<and> (''dirt'', 2) \<in> set tbl
        \<and> build sample_env ''tiles'' 16 256 tbl sample_fs = Inr r \<and> in_cell 16 16 2 p \<longrightarrow>
       pix (atlas r) p = pix texture (fst p - (2 mod 16) * 16, snd p - (2 div 16) * 16)" and
    last: "row_col (16 * 16 - 1) 16 = Inr (16 - 1, 16 - 1)"
    by auto
  from rs sample_resize have tex: "texture = dirt_texture" by simp
  from px [rule_format, of "[(''dirt'', 2)]" sample_result "(40, 7)"]
    sample_invariant mem sample_build cell
  have "pix (atlas sample_result) (40, 7) = pix dirt_texture (8, 7)"
    by (simp add: tex)
  moreover from rc have "row_col 2 16 = Inr (0, 2)" by simp
  moreover from last have "row_col 255 16 = Inr (15, 15)" by simp
  ultimately have
    "row_col 2 16 = Inr (0, 2)"
    "pix (atlas sample_result) (40, 7) = pix dirt_texture (8, 7)"
    "row_col 255 16 = Inr (15, 15)"
    by simp_all
  with air sample_png ts tpr sample_invariant mem sample_build sample_resize cell
  show ?thesis by simp
qed

text \<open>
  C10. For a slot index in \<open>[0, (atlas_size div texture_size)\<^sup>2)\<close> the box of the paste,
  from \<open>(col * texture_size, row * texture_size)\<close> to that corner plus the texture's
  size, lies inside the canvas, so nothing is clipped; a paste keeps the dimensions of
  the canvas, and the picture a run writes is \<open>atlas_size \<times> atlas_size\<close>.
\<close>

theorem paste_inside_canvas:
  assumes ts: "0 < texture_size" and asz: "0 \<le> atlas_size"
    and lo: "0 \<le> index"
    and hi: "index < (atlas_size div texture_size) * (atlas_size div texture_size)"
    and sz: "width texture = texture_size" "height texture = texture_size"
  shows "(\<forall>p. in_box (paste_box texture
                 ((index mod (atlas_size div texture_size)) * texture_size,
                  (index div (atlas_size div texture_size)) * texture_size)) p \<longrightarrow>
              in_box (0, 0, atlas_size, atlas_size) p)
    \<and> (\<forall>im. width (paste im texture
                 ((index mod (atlas_size div texture_size)) * texture_size,
                  (index div (atlas_size div texture_size)) * texture_size)) = width im
          \<and> height (paste im texture
                 ((index mod (atlas_size div texture_size)) * texture_size,
                  (index div (atlas_size div texture_size)) * texture_size)) = height im)
    \<and> (\<forall>e d tbl fs r. build e d texture_size atlas_size tbl fs = Inr r \<longrightarrow>
          width (atlas r) = atlas_size \<and> height (atlas r) = atlas_size
          \<and> files r OUTPUT = Some (Png (atlas r)))"
proof -
  have "in_box (0, 0, atlas_size, atlas_size) p"
    if "in_box (paste_box texture
                 ((index mod (atlas_size div texture_size)) * texture_size,
                  (index div (atlas_size div texture_size)) * texture_size)) p" for p
  proof -
    from that have "in_cell texture_size (atlas_size div texture_size) index p"
      by (simp add: in_cell_def paste_box_def sz)
    with ts asz lo hi show ?thesis by (rule cell_in_canvas)
  qed
  moreover have "width (atlas r) = atlas_size \<and> height (atlas r) = atlas_size
      \<and> files r OUTPUT = Some (Png (atlas r))"
    if "build e d texture_size atlas_size tbl fs = Inr r" for e d tbl fs r
    using build_dims [OF that] by simp
  ultimately show ?thesis by simp
qed

theorem paste_inside_canvas_witness:
  "(0::int) < 16 \<and> (0::int) \<le> 256 \<and> (0::int) \<le> 255 \<and> (255::int) < (256 div 16) * (256 div 16)
   \<and> width dirt_texture = 16 \<and> height dirt_texture = 16
   \<and> paste_box dirt_texture (240, 240) = (240, 240, 256, 256)
   \<and> in_box (paste_box dirt_texture (240, 240)) (255, 255)
   \<and> in_box (0, 0, 256, 256) (255, 255)
   \<and> build sample_env ''tiles'' 16 256 [(''dirt'', 2)] sample_fs = Inr sample_result
   \<and> width (atlas sample_result) = 256 \<and> height (atlas sample_result) = 256"
proof -
  have sz: "width dirt_texture = 16" "height dirt_texture = 16"
    by (simp_all add: dirt_texture_def)
  have box: "paste_box dirt_texture (240, 240) = (240, 240, 256, 256)"
    by (simp add: paste_box_def sz)
  have inside: "in_box (paste_box dirt_texture (240, 240)) (255, 255)"
    by (simp add: box in_box_def)
  from paste_inside_canvas [of 16 256 255 dirt_texture] sz
  have "\<forall>p. in_box (paste_box dirt_texture (240, 240)) p \<longrightarrow> in_box (0, 0, 256, 256) p"
    and "\<forall>e d tbl fs r. build e d 16 256 tbl fs = Inr r \<longrightarrow>
          width (atlas r) = 256 \<and> height (atlas r) = 256"
    by simp_all
  with inside sample_build
  have "in_box (0, 0, 256, 256) (255, 255)"
    "width (atlas sample_result) = 256" "height (atlas sample_result) = 256"
    by blast+
  with sz box inside sample_build show ?thesis by simp
qed

text \<open>
  C7. A run starts by allocating the canvas: \<open>atlas_size \<times> atlas_size\<close>, four channels
  per pixel, every pixel \<open>(0, 0, 0, 0)\<close>; the loop over the table starts from this canvas
  and an empty trace, so before any tile is processed. With the script's constants the
  canvas is \<open>256 \<times> 256\<close>.
\<close>

theorem canvas_allocated:
  assumes "0 \<le> atlas_size" and "texture_size \<noteq> 0"
  shows "Image_new (atlas_size, atlas_size) (0, 0, 0, 0) =
      Inr \<lparr>width = atlas_size, height = atlas_size, pix = (\<lambda>p. (0, 0, 0, 0))\<rparr>
    \<and> build e d texture_size atlas_size tbl fs =
       (case loop e d texture_size (atlas_size div texture_size) tbl
               \<lparr>atlas = \<lparr>width = atlas_size, height = atlas_size, pix = (\<lambda>p. (0, 0, 0, 0))\<rparr>,
                trace = [], files = fs\<rparr> of
          Inl err \<Rightarrow> Inl err
        | Inr st \<Rightarrow>
           (case save e st OUTPUT of
              Inl err \<Rightarrow> Inl err
            | Inr st' \<Rightarrow> Inr (st'\<lparr>trace := trace st' @ [Print (summary atlas_size)]\<rparr>)))
    \<and> main e fs =
       (case loop e TILES_DIR 16 16 TEXTURE_MAP
               \<lparr>atlas = \<lparr>width = 256, height = 256, pix = (\<lambda>p. (0, 0, 0, 0))\<rparr>,
                trace = [], files = fs\<rparr> of
          Inl err \<Rightarrow> Inl err
        | Inr st \<Rightarrow>
           (case save e st OUTPUT of
              Inl err \<Rightarrow> Inl err
            | Inr st' \<Rightarrow> Inr (st'\<lparr>trace := trace st' @ [Print (summary 256)]\<rparr>)))"
  using assms
  by (simp add: build_def main_def Image_new_def Let_def ATLAS_SIZE_def TEXTURE_SIZE_def)

theorem canvas_allocated_witness:
  "(0::int) \<le> 256 \<and> (16::int) \<noteq> 0
   \<and> Image_new (256, 256) (0, 0, 0, 0) =
      Inr \<lparr>width = 256, height = 256, pix = (\<lambda>p. (0, 0, 0, 0))\<rparr>
   \<and> build sample_env ''tiles'' 16 256 [] sample_fs =
      Inr \<lparr>atlas = \<lparr>width = 256, height = 256, pix = (\<lambda>p. (0, 0, 0, 0))\<rparr>,
           trace = [Save OUTPUT, Print (summary 256)],
           files = sample_fs(OUTPUT \<mapsto>
             Png \<lparr>width = 256, height = 256, pix = (\<lambda>p. (0, 0, 0, 0))\<rparr>)\<rparr>"
  using canvas_allocated [of 256 16 sample_env "''tiles''" "[]" sample_fs]
  by (simp add: save_def sample_env_writable sample_write_file)

text \<open>
  C8. A paste replaces every pixel of the box that lies in the canvas by the pasted
  picture's pixel, all four channels and with no blending, and changes no pixel outside
  the box. Hence, in the atlas a run writes, a pixel outside the cells of the placed
  tiles is fully transparent.
\<close>

theorem paste_overwrites_region:
  "(in_box (0, 0, width im, height im) p \<and> in_box (paste_box src box) p \<longrightarrow>
      pix (paste im src box) p = pix src (fst p - fst box, snd p - snd box))
   \<and> (\<not> in_box (paste_box src box) p \<longrightarrow> pix (paste im src box) p = pix im p)
   \<and> (build e d texture_size atlas_size tbl fs = Inr r
       \<and> list_all (\<lambda>entry. placed e d fs entry \<longrightarrow>
            \<not> in_cell texture_size (atlas_size div texture_size) (snd entry) p) tbl \<longrightarrow>
      pix (atlas r) p = (0, 0, 0, 0))"
  using build_outside [of e d texture_size atlas_size tbl fs r p]
  by (simp add: pix_paste)

theorem paste_overwrites_region_witness:
  "in_box (0, 0, width (blank 256), height (blank 256)) (40, 7)
   \<and> in_box (paste_box dirt_texture (32, 0)) (40, 7)
   \<and> pix (paste (blank 256) dirt_texture (32, 0)) (40, 7) = pix dirt_texture (8, 7)
   \<and> \<not> in_box (paste_box dirt_texture (32, 0)) (50, 7)
   \<and> pix (paste (blank 256) dirt_texture (32, 0)) (50, 7) = pix (blank 256) (50, 7)
   \<and> build sample_env ''tiles'' 16 256 [(''dirt'', 2)] sample_fs = Inr sample_result
   \<and> \<not> in_cell 16 (256 div 16) 2 (50, 7)
   \<and> pix (atlas sample_result) (50, 7) = (0, 0, 0, 0)"
proof -
  have sz: "width dirt_texture = 16" "height dirt_texture = 16"
    by (simp_all add: dirt_texture_def)
  have a: "in_box (0, 0, width (blank 256), height (blank 256)) (40, 7)"
    by (simp add: blank_def in_box_def)
  have b: "in_box (paste_box dirt_texture (32, 0)) (40, 7)"
    by (simp add: paste_box_def in_box_def sz)
  have c: "\<not> in_box (paste_box dirt_texture (32, 0)) (50, 7)"
    by (simp add: paste_box_def in_box_def sz)
  have d: "\<not> in_cell 16 (256 div 16) 2 (50, 7)"
    by (simp add: in_cell_def in_box_def)
  from paste_overwrites_region [of "blank 256" "(40, 7)" dirt_texture "(32, 0)"] a b
  have one: "pix (paste (blank 256) dirt_texture (32, 0)) (40, 7) = pix dirt_texture (8, 7)"
    by simp
  from paste_overwrites_region [of "blank 256" "(50, 7)" dirt_texture "(32, 0)"] c
  have two: "pix (paste (blank 256) dirt_texture (32, 0)) (50, 7) = pix (blank 256) (50, 7)"
    by simp
  from paste_overwrites_region [of _ "(50, 7)" _ _ sample_env "''tiles''" 16 256
      "[(''dirt'', 2)]" sample_fs sample_result] sample_build d
  have three: "pix (atlas sample_result) (50, 7) = (0, 0, 0, 0)"
    by simp
  from a b c d one two three sample_build show ?thesis by simp
qed

text \<open>
  C5. For a table that satisfies the table invariant, the atlas a run writes does not
  depend on the order of the entries: every permutation of the table gives the same
  picture (and a run raises on one order exactly when it raises on the other).
\<close>

theorem order_independent:
  assumes inv: "table_invariant atlas_size texture_size tbl"
    and perm: "mset tbl' = mset tbl"
  shows "output_image (build e d texture_size atlas_size tbl' fs) =
         output_image (build e d texture_size atlas_size tbl fs)"
proof (cases "0 \<le> atlas_size \<and> texture_size \<noteq> 0")
  case False
  then show ?thesis
    by (auto simp: build_def Image_new_def output_image_def)
next
  case True
  then have asz: "0 \<le> atlas_size" and ts: "texture_size \<noteq> 0" by simp_all
  let ?st = "\<lparr>atlas = blank atlas_size, trace = [], files = fs\<rparr>"
  let ?tpr = "atlas_size div texture_size"
  from perm have same: "set tbl = set tbl'" by (metis mset_eq_setD)
  from inv have dist: "distinct (map snd tbl)" by (simp add: table_invariant_def)
  from perm have "mset (map snd tbl') = mset (map snd tbl)" by simp
  with dist have dist': "distinct (map snd tbl')" by (metis mset_eq_imp_distinct_iff)
  have ok: "(\<exists>st. loop e d texture_size ?tpr tbl' ?st = Inr st) =
      (\<exists>st. loop e d texture_size ?tpr tbl ?st = Inr st)"
    unfolding loop_succeeds using same by (simp add: list_all_iff)
  show ?thesis
  proof (cases "loop e d texture_size ?tpr tbl ?st")
    case (Inl err)
    with ok obtain err' where "loop e d texture_size ?tpr tbl' ?st = Inl err'"
      by (cases "loop e d texture_size ?tpr tbl' ?st") auto
    with Inl show ?thesis
      by (simp add: build_unfold [OF asz ts] output_image_def)
  next
    case (Inr st1)
    with ok obtain st2 where two: "loop e d texture_size ?tpr tbl' ?st = Inr st2"
      by auto
    from loop_atlas_set [OF Inr two same dist dist'] have "atlas st1 = atlas st2" .
    with Inr two show ?thesis
      by (simp add: build_unfold [OF asz ts] output_image_def)
  qed
qed

theorem order_independent_witness:
  "table_invariant 256 16 [(''dirt'', 2), (''sand'', 5)]
   \<and> mset [(''sand'', 5), (''dirt'', 2::int)] = mset [(''dirt'', 2), (''sand'', 5)]
   \<and> output_image (build sample_env ''tiles'' 16 256 [(''sand'', 5), (''dirt'', 2)] two_fs) =
      Some (paste (paste (blank 256) dirt_texture (32, 0)) sand_png (80, 0))"
proof -
  have inv: "table_invariant 256 16 [(''dirt'', 2), (''sand'', 5)]"
    by (simp add: table_invariant_def)
  have perm: "mset [(''sand'', 5), (''dirt'', 2::int)] = mset [(''dirt'', 2), (''sand'', 5)]"
    by simp
  from order_independent [OF inv perm, of sample_env "''tiles''" two_fs] inv perm
  show ?thesis by (simp add: two_build output_image_def)
qed

text \<open>
  C6. The written atlas and the trace are a function of the inputs: two runs on file
  systems that hold the same content at the paths of the table's tiles write the same
  picture and leave the same trace (and raise together). In particular a second run,
  on a file system in which the tiles are what they were for the first, writes the
  picture the first run wrote.
\<close>

theorem deterministic_build:
  assumes agree: "list_all (\<lambda>entry. fst entry \<noteq> ''air'' \<longrightarrow>
      fs2 (tile_path e d (fst entry)) = fs1 (tile_path e d (fst entry))) tbl"
  shows "output_image (build e d texture_size atlas_size tbl fs2) =
         output_image (build e d texture_size atlas_size tbl fs1)
    \<and> map_sum (\<lambda>err. err) trace (build e d texture_size atlas_size tbl fs2) =
       map_sum (\<lambda>err. err) trace (build e d texture_size atlas_size tbl fs1)"
proof -
  note eq = build_set_files [OF agree, of texture_size atlas_size]
  have one: "output_image (build e d texture_size atlas_size tbl fs2) =
         output_image (build e d texture_size atlas_size tbl fs1)"
    by (cases "build e d texture_size atlas_size tbl fs1") (simp_all add: eq output_image_def)
  have two: "map_sum (\<lambda>err. err) trace (build e d texture_size atlas_size tbl fs2) =
       map_sum (\<lambda>err. err) trace (build e d texture_size atlas_size tbl fs1)"
    by (cases "build e d texture_size atlas_size tbl fs1") (simp_all add: eq)
  from one two show ?thesis by simp
qed

theorem deterministic_build_witness:
  "files sample_result (tile_path sample_env ''tiles'' ''dirt'') =
     sample_fs (tile_path sample_env ''tiles'' ''dirt'')
   \<and> build sample_env ''tiles'' 16 256 [(''dirt'', 2)] sample_fs = Inr sample_result
   \<and> output_image (build sample_env ''tiles'' 16 256 [(''dirt'', 2)] (files sample_result)) =
      Some (atlas sample_result)
   \<and> map_sum (\<lambda>err. err) trace
        (build sample_env ''tiles'' 16 256 [(''dirt'', 2)] (files sample_result)) =
      Inr (trace sample_result)"
proof -
  have same: "files sample_result (tile_path sample_env ''tiles'' ''dirt'') =
      sample_fs (tile_path sample_env ''tiles'' ''dirt'')"
    by (simp add: sample_result_def tile_path_def sample_env_join OUTPUT_def)
  then have agree: "list_all (\<lambda>entry. fst entry \<noteq> ''air'' \<longrightarrow>
      files sample_result (tile_path sample_env ''tiles'' (fst entry)) =
      sample_fs (tile_path sample_env ''tiles'' (fst entry))) [(''dirt'', 2::int)]"
    by simp
  from deterministic_build [OF agree, of 16 256] same sample_build
  show ?thesis by (simp add: output_image_def)
qed

text \<open>
  C2. An entry other than the sentinel whose file does not exist: the loop body checks
  the path, prints \<open>Missing: name\<close>, leaves the atlas as it is and returns, and the loop
  goes on with the remaining entries. Inserting such an entry anywhere into the table
  of a run that returns gives a run that returns too, writes the output file, and
  writes the same picture. With distinct slot indices the cell of the missing entry is
  fully transparent in the written atlas.
\<close>

theorem missing_file_skipped:
  assumes air: "name \<noteq> ''air''"
    and missing: "fs (tile_path e d name) = None"
  shows "(\<forall>st. files st = fs \<longrightarrow>
        process_entry e d texture_size textures_per_row st (name, index) =
          Inr (st\<lparr>trace := trace st @
                 [Exists (tile_path e d name), Print (''Missing: '' @ name)]\<rparr>))
    \<and> (\<forall>st rest. files st = fs \<longrightarrow>
        loop e d texture_size textures_per_row ((name, index) # rest) st =
          loop e d texture_size textures_per_row rest
            (st\<lparr>trace := trace st @
                 [Exists (tile_path e d name), Print (''Missing: '' @ name)]\<rparr>))
    \<and> (\<forall>pre rest r. build e d texture_size atlas_size (pre @ rest) fs = Inr r \<longrightarrow>
        (\<exists>r'. build e d texture_size atlas_size (pre @ (name, index) # rest) fs = Inr r'
           \<and> atlas r' = atlas r \<and> files r' = files r
           \<and> Save OUTPUT \<in> set (trace r')
           \<and> Print (''Missing: '' @ name) \<in> set (trace r')))
    \<and> (\<forall>tbl r p. build e d texture_size atlas_size tbl fs = Inr r
          \<and> distinct (map snd tbl) \<and> (name, index) \<in> set tbl
          \<and> in_cell texture_size (atlas_size div texture_size) index p \<longrightarrow>
        pix (atlas r) p = (0, 0, 0, 0))"
proof -
  have step: "process_entry e d ts tpr st (name, index) =
      Inr (st\<lparr>trace := trace st @
             [Exists (tile_path e d name), Print (''Missing: '' @ name)]\<rparr>)"
    if "files st = fs" for st ts tpr
    using that air missing by (simp add: process_entry_missing)
  have cont: "loop e d texture_size textures_per_row ((name, index) # rest) st =
      loop e d texture_size textures_per_row rest
        (st\<lparr>trace := trace st @
             [Exists (tile_path e d name), Print (''Missing: '' @ name)]\<rparr>)"
    if "files st = fs" for st rest
    by (simp add: step [OF that])
  have run: "\<exists>r'. build e d texture_size atlas_size (pre @ (name, index) # rest) fs = Inr r'
           \<and> atlas r' = atlas r \<and> files r' = files r
           \<and> Save OUTPUT \<in> set (trace r')
           \<and> Print (''Missing: '' @ name) \<in> set (trace r')"
    if "build e d texture_size atlas_size (pre @ rest) fs = Inr r" for pre rest r
    using build_insert_silent [OF that, of "(name, index)"
        "[Exists (tile_path e d name), Print (''Missing: '' @ name)]"] step
    by auto
  have np: "\<not> placed e d fs (name, index)"
    using missing by (simp add: placed_def)
  have cell: "pix (atlas r) p = (0, 0, 0, 0)"
    if "build e d texture_size atlas_size tbl fs = Inr r" "distinct (map snd tbl)"
      "(name, index) \<in> set tbl" "in_cell texture_size (atlas_size div texture_size) index p"
    for tbl r p
    using build_cell_untouched [OF that(1,2,3) np that(4)] .
  from step cont run cell show ?thesis by blast
qed

theorem missing_file_skipped_witness:
  "''sand'' \<noteq> ''air''
   \<and> sample_fs (tile_path sample_env ''tiles'' ''sand'') = None
   \<and> process_entry sample_env ''tiles'' 16 16
        \<lparr>atlas = blank 256, trace = [], files = sample_fs\<rparr> (''sand'', 5) =
      Inr \<lparr>atlas = blank 256,
           trace = [Exists ''tiles/sand.png'', Print ''Missing: sand''],
           files = sample_fs\<rparr>
   \<and> build sample_env ''tiles'' 16 256 [(''dirt'', 2)] sample_fs = Inr sample_result
   \<and> (\<exists>r'. build sample_env ''tiles'' 16 256 [(''dirt'', 2), (''sand'', 5)] sample_fs = Inr r'
        \<and> atlas r' = atlas sample_result
        \<and> Save OUTPUT \<in> set (trace r')
        \<and> Print ''Missing: sand'' \<in> set (trace r')
        \<and> in_cell 16 (256 div 16) 5 (85, 3)
        \<and> pix (atlas r') (85, 3) = (0, 0, 0, 0))"
proof -
  have air: "''sand'' \<noteq> ''air''" by simp
  note inst = missing_file_skipped [where name = "''sand''" and fs = sample_fs
      and e = sample_env and d = "''tiles''" and texture_size = 16 and textures_per_row = 16
      and index = 5 and atlas_size = 256, OF air sand_missing]
  from inst have step: "\<forall>st. files st = sample_fs \<longrightarrow>
        process_entry sample_env ''tiles'' 16 16 st (''sand'', 5) =
          Inr (st\<lparr>trace := trace st @
                 [Exists (tile_path sample_env ''tiles'' ''sand''),
                  Print (''Missing: '' @ ''sand'')]\<rparr>)"
    by blast
  from inst have run: "\<forall>pre rest r.
        build sample_env ''tiles'' 16 256 (pre @ rest) sample_fs = Inr r \<longrightarrow>
        (\<exists>r'. build sample_env ''tiles'' 16 256 (pre @ (''sand'', 5) # rest) sample_fs = Inr r'
           \<and> atlas r' = atlas r \<and> files r' = files r
           \<and> Save OUTPUT \<in> set (trace r')
           \<and> Print (''Missing: '' @ ''sand'') \<in> set (trace r'))"
    by blast
  from inst have cell: "\<forall>tbl r p. build sample_env ''tiles'' 16 256 tbl sample_fs = Inr r
          \<and> distinct (map snd tbl) \<and> (''sand'', 5) \<in> set tbl
          \<and> in_cell 16 (256 div 16) 5 p \<longrightarrow>
        pix (atlas r) p = (0, 0, 0, 0)"
    by blast
  from step [rule_format, of "\<lparr>atlas = blank 256, trace = [], files = sample_fs\<rparr>"]
  have one: "process_entry sample_env ''tiles'' 16 16
        \<lparr>atlas = blank 256, trace = [], files = sample_fs\<rparr> (''sand'', 5) =
      Inr \<lparr>atlas = blank 256,
           trace = [Exists ''tiles/sand.png'', Print ''Missing: sand''],
           files = sample_fs\<rparr>"
    by (simp add: tile_path_def sample_env_join)
  from run [rule_format, of "[(''dirt'', 2)]" "[]" sample_result] sample_build
  obtain r' where
    r': "build sample_env ''tiles'' 16 256 [(''dirt'', 2), (''sand'', 5)] sample_fs = Inr r'"
      "atlas r' = atlas sample_result" "Save OUTPUT \<in> set (trace r')"
      "Print ''Missing: sand'' \<in> set (trace r')"
    by auto
  have c: "in_cell 16 (256 div 16) 5 (85, 3)"
    by (simp add: in_cell_def in_box_def)
  from cell [rule_format, of "[(''dirt'', 2), (''sand'', 5)]" r' "(85, 3)"] r'(1) c
  have "pix (atlas r') (85, 3) = (0, 0, 0, 0)" by simp
  with air sand_missing one sample_build r' c show ?thesis by blast
qed

text \<open>
  C3. The entry named \<open>air\<close> is skipped before anything else is done: on any platform and
  any file system the loop body returns the state unchanged, so it adds no event to the
  trace (no path is tested or opened, nothing is printed) and pastes nothing. A run
  behaves as the run on the table with the sentinel removed, its console shows neither
  \<open>Missing: air\<close> nor \<open>Added air at index i\<close>, and with distinct slot indices the
  sentinel's cell is fully transparent in the written atlas.
\<close>

theorem air_skipped:
  "process_entry e d texture_size textures_per_row st (''air'', index) = Inr st
   \<and> build e d texture_size atlas_size tbl fs =
     build e d texture_size atlas_size (filter (\<lambda>entry. fst entry \<noteq> ''air'') tbl) fs
   \<and> (build e d texture_size atlas_size tbl fs = Inr r \<longrightarrow>
        Print ''Missing: air'' \<notin> set (trace r)
        \<and> Print (''Added air at index '' @ str_int i) \<notin> set (trace r))
   \<and> (build e d texture_size atlas_size tbl fs = Inr r
        \<and> distinct (map snd tbl) \<and> (''air'', index) \<in> set tbl
        \<and> in_cell texture_size (atlas_size div texture_size) index p \<longrightarrow>
      pix (atlas r) p = (0, 0, 0, 0))"
proof -
  have np: "\<not> placed e d fs (''air'', index)" by (simp add: placed_def)
  have cell: "pix (atlas r) p = (0, 0, 0, 0)"
    if "build e d texture_size atlas_size tbl fs = Inr r" "distinct (map snd tbl)"
      "(''air'', index) \<in> set tbl" "in_cell texture_size (atlas_size div texture_size) index p"
    using build_cell_untouched [OF that(1,2,3) np that(4)] .
  have diag: "Print ''Missing: air'' \<notin> set (trace r)
      \<and> Print (''Added air at index '' @ str_int i) \<notin> set (trace r)"
    if "build e d texture_size atlas_size tbl fs = Inr r"
    using no_air_diagnostic [OF that] by simp
  from cell diag show ?thesis
    by (simp add: build_filter_air)
qed

theorem air_skipped_witness:
  "process_entry sample_env ''tiles'' 16 16 sample_result (''air'', 0) = Inr sample_result
   \<and> build sample_env ''tiles'' 16 256 [(''air'', 0), (''dirt'', 2)] sample_fs = Inr sample_result
   \<and> Print ''Missing: air'' \<notin> set (trace sample_result)
   \<and> Print (''Added air at index '' @ str_int 0) \<notin> set (trace sample_result)
   \<and> distinct (map snd [(''air'', 0), (''dirt'', 2::int)])
   \<and> (''air'', 0) \<in> set [(''air'', 0), (''dirt'', 2::int)]
   \<and> in_cell 16 (256 div 16) 0 (3, 4)
   \<and> pix (atlas sample_result) (3, 4) = (0, 0, 0, 0)"
proof -
  note inst = air_skipped [where e = sample_env and d = "''tiles''" and texture_size = 16
      and textures_per_row = 16 and st = sample_result and index = 0 and atlas_size = 256
      and tbl = "[(''air'', 0), (''dirt'', 2)]" and fs = sample_fs and r = sample_result
      and i = 0 and p = "(3, 4)"]
  have c: "in_cell 16 (256 div 16) 0 (3, 4)"
    by (simp add: in_cell_def in_box_def)
  from inst have run:
    "build sample_env ''tiles'' 16 256 [(''air'', 0), (''dirt'', 2)] sample_fs = Inr sample_result"
    by (simp add: sample_build)
  with inst c show ?thesis by simp
qed

end
